theory Spec2Isabelle
  imports Main
begin

section \<open>Data model\<close>

text \<open>
  The embedding follows \<^verbatim>\<open>src/src/ymp/stage/pipeline.py\<close>. Python objects that the
  code shares by reference (the configured stage-name list, the memoized StageStack
  instances) live in explicit stores indexed by references; everything else is a value.
\<close>

type_synonym ref = nat

text \<open>
  \<^verbatim>\<open>YmpConfigError(self.stages, "Pipeline must start with project")\<close> carries the
  chain and a message. \<^verbatim>\<open>self.stages[0]\<close> on an empty list raises \<^verbatim>\<open>IndexError\<close>.
\<close>

datatype error = YmpConfigError "string list" string | IndexError

text \<open>A project is an external entity; only its identity matters here.\<close>

datatype proj = Project string

text \<open>Of a stage, the constructor of a pipeline reads \<^verbatim>\<open>stage.outputs\<close> only, in
  iteration order.\<close>

record stage =
  outputs :: "string list"

record stagestack =
  stack_name :: string
  stage_names :: "string list"

text \<open>
  A \<^verbatim>\<open>Pipeline\<close> object. \<^verbatim>\<open>self.stages = cfg\<close> stores a reference to the list object
  it was given, \<^verbatim>\<open>self.stagestack\<close> a reference to a StageStack instance, and
  \<^verbatim>\<open>self.output_map\<close> is a dict, kept here in insertion order.
\<close>

record pipeline =
  name :: string
  stages :: ref
  stagestack :: ref
  output_map :: "(string \<times> string) list"

text \<open>
  The configuration session (\<^verbatim>\<open>ymp.get_config()\<close>) with its registries, the StageStack
  memo table and the two object stores. \<open>next_stack\<close> and \<open>next_list\<close> are the
  addresses the next allocation uses.
\<close>

record session =
  projects :: "string \<rightharpoonup> proj"
  pipelines :: "string \<rightharpoonup> pipeline"
  stage_registry :: "string \<rightharpoonup> stage"
  find_stage :: "stagestack \<Rightarrow> string \<Rightarrow> stage option"
  stacks :: "string \<rightharpoonup> ref"
  stack_objs :: "ref \<Rightarrow> stagestack"
  next_stack :: ref
  list_objs :: "ref \<Rightarrow> string list"
  next_list :: ref

section \<open>Strings\<close>

text \<open>\<^verbatim>\<open>".".join(xs)\<close>\<close>

fun dot_join :: "string list \<Rightarrow> string" where
  "dot_join [] = []"
| "dot_join [x] = x"
| "dot_join (x # y # ys) = x @ ''.'' @ dot_join (y # ys)"

text \<open>Modelled from the spec: the chain key of a StageStack is ``reversible to the
  ordered name list'' (4.1); the code that splits it belongs to \<^verbatim>\<open>ymp.stage.StageStack\<close>,
  which is not part of the sources. The string is split at every dot; the accumulator
  holds the characters of the current name.\<close>

fun split_dot_acc :: "string \<Rightarrow> string \<Rightarrow> string list" where
  "split_dot_acc acc [] = [rev acc]"
| "split_dot_acc acc (c # cs) =
     (if c = CHR ''.'' then rev acc # split_dot_acc [] cs else split_dot_acc (c # acc) cs)"

section \<open>StageStack\<close>

text \<open>
  The pipeline module imports \<^verbatim>\<open>ymp.stage.StageStack\<close>, whose code is not part of the
  sources. The spec (4.1) gives its contract: the chain
  key is the names joined by the separator and is reversible to the ordered name list;
  the empty chain is invalid and fails with a configuration error; a chain containing a
  name unknown to the stage registry and to the project and pipeline registries is a
  configuration error; \<^verbatim>\<open>get\<close> returns the memoized stack for a chain key and
  constructs it on first request. \<^verbatim>\<open>_find_stage\<close> returns a stage or ``not found''
  and never raises; it is the field \<open>find_stage\<close> of the session, a parameter of the
  model. The definitions of this section follow that contract.
\<close>

text \<open>Modelled from the spec: the ordered name list of a chain key (the code of
  \<^verbatim>\<open>StageStack\<close> is missing); the key of the empty chain is the empty string.\<close>

definition chain_of_key :: "string \<Rightarrow> string list" where
  "chain_of_key k = (if k = [] then [] else split_dot_acc [] k)"

text \<open>Modelled from the spec: a name is known when the stage registry, the project
  registry or the pipeline registry has it (the check is made by the missing
  \<^verbatim>\<open>StageStack\<close>).\<close>

definition known_name :: "session \<Rightarrow> string \<Rightarrow> bool" where
  "known_name s n =
     (stage_registry s n \<noteq> None \<or> projects s n \<noteq> None \<or> pipelines s n \<noteq> None)"

text \<open>Modelled from the spec: the constructor of the missing \<^verbatim>\<open>StageStack\<close>; it rejects
  the empty chain and a chain with an unknown name by a configuration error.\<close>

definition new_stack :: "session \<Rightarrow> string \<Rightarrow> error + stagestack" where
  "new_stack s k =
     (let chain = chain_of_key k in
      if chain = [] then Inl (YmpConfigError chain ''Empty stage chain'')
      else if list_all (known_name s) chain
      then Inr \<lparr>stack_name = k, stage_names = chain\<rparr>
      else Inl (YmpConfigError chain ''Unknown stage name''))"

text \<open>Modelled from the spec: \<^verbatim>\<open>StageStack.get\<close> (missing from the sources) returns the
  memoized instance for the chain key and constructs and memoizes it on first request.\<close>

definition StageStack_get :: "session \<Rightarrow> string \<Rightarrow> error + (ref \<times> session)" where
  "StageStack_get s k =
     (case stacks s k of
        Some r \<Rightarrow> Inr (r, s)
      | None \<Rightarrow>
          (case new_stack s k of
             Inl e \<Rightarrow> Inl e
           | Inr stk \<Rightarrow>
               Inr (next_stack s,
                    s\<lparr>stacks := (stacks s)(k \<mapsto> next_stack s),
                      stack_objs := (stack_objs s)(next_stack s := stk),
                      next_stack := Suc (next_stack s)\<rparr>)))"

text \<open>Modelled from the spec: a sequence of requests to the missing \<^verbatim>\<open>StageStack.get\<close>
  in one configuration lifetime; a request that raises leaves the session as it was.\<close>

fun StageStack_gets :: "session \<Rightarrow> string list \<Rightarrow> session" where
  "StageStack_gets s [] = s"
| "StageStack_gets s (k # ks) =
     (case StageStack_get s k of
        Inl e \<Rightarrow> StageStack_gets s ks
      | Inr (r, s') \<Rightarrow> StageStack_gets s' ks)"

section \<open>Pipeline\<close>

text \<open>
  The inner loop of the constructor:
  \<^verbatim>\<open>
  for fname in stage.outputs:
      if fname not in self.output_map:
          self.output_map[fname] = path
  \<close>
  A new key of a dict goes to the end of its insertion order.
\<close>

fun record_outputs :: "string list \<Rightarrow> string \<Rightarrow> (string \<times> string) list \<Rightarrow> (string \<times> string) list" where
  "record_outputs [] path om = om"
| "record_outputs (fname # fnames) path om =
     record_outputs fnames path
       (if map_of om fname = None then om @ [(fname, path)] else om)"

text \<open>
  The outer loop, on the store of list objects; \<open>r\<close> is the reference held by the
  local variable \<^verbatim>\<open>stage_names\<close>, and \<^verbatim>\<open>pop()\<close> updates the object in place:
  \<^verbatim>\<open>
  while stage_names:
      path = ".".join(stage_names)
      stage = self.stagestack._find_stage(stage_names.pop())
      if not stage:
          continue
      for fname in stage.outputs: ...
  \<close>
\<close>

function merge_loop ::
  "(string \<Rightarrow> stage option) \<Rightarrow> ref \<Rightarrow> (ref \<Rightarrow> string list) \<Rightarrow> (string \<times> string) list
     \<Rightarrow> (ref \<Rightarrow> string list) \<times> (string \<times> string) list" where
  "merge_loop fs r h om =
     (if h r = [] then (h, om)
      else
        (case fs (last (h r)) of
           None \<Rightarrow> merge_loop fs r (h(r := butlast (h r))) om
         | Some st \<Rightarrow>
             merge_loop fs r (h(r := butlast (h r)))
               (record_outputs (outputs st) (dot_join (h r)) om)))"
  by pat_completeness auto
termination
  by (relation "measure (\<lambda>(fs, r, h, om). length (h r))") auto

declare merge_loop.simps [simp del]

text \<open>
  \<^verbatim>\<open>Pipeline.__init__(self, name, cfg)\<close>. Modelled from the spec:
  \<^verbatim>\<open>ConfigStage.__init__\<close> (\<^verbatim>\<open>ymp.stage.base\<close>, not part of the sources) records the
  name. \<^verbatim>\<open>list(self.stages)\<close> allocates a new list object holding a copy.
\<close>

definition Pipeline_init :: "session \<Rightarrow> string \<Rightarrow> ref \<Rightarrow> error + (pipeline \<times> session)" where
  "Pipeline_init s nm cfg =
     (case StageStack_get s (dot_join (list_objs s cfg)) of
        Inl e \<Rightarrow> Inl e
      | Inr (stk, s1) \<Rightarrow>
          (let stage_names_ref = next_list s1;
               h0 = (list_objs s1)(stage_names_ref := list_objs s1 cfg);
               res = merge_loop (find_stage s1 (stack_objs s1 stk)) stage_names_ref h0 []
           in Inr (\<lparr>name = nm, stages = cfg, stagestack = stk, output_map = snd res\<rparr>,
                   s1\<lparr>list_objs := fst res, next_list := Suc stage_names_ref\<rparr>)))"

text \<open>
  The property \<^verbatim>\<open>Pipeline.project\<close>. The recursion through the pipeline registry has
  no bound in the source, so the result is optional: \<open>None\<close> stands for a call that
  does not return.
\<close>

partial_function (option) project :: "session \<Rightarrow> pipeline \<Rightarrow> (error + proj) option" where
  "project s p =
     (case list_objs s (stages p) of
        [] \<Rightarrow> Some (Inl IndexError)
      | n # ns \<Rightarrow>
          (case projects s n of
             Some pr \<Rightarrow> Some (Inr pr)
           | None \<Rightarrow>
               (case pipelines s n of
                  Some q \<Rightarrow> project s q
                | None \<Rightarrow>
                    Some (Inl (YmpConfigError (list_objs s (stages p))
                                 ''Pipeline must start with project'')))))"

text \<open>\<^verbatim>\<open>def get_path(self, suffix=None): return self.name\<close>\<close>

definition get_path :: "pipeline \<Rightarrow> string option \<Rightarrow> string" where
  "get_path p suffix = name p"

text \<open>\<^verbatim>\<open>list(self.output_map.keys())\<close>\<close>

definition Pipeline_outputs :: "pipeline \<Rightarrow> string list" where
  "Pipeline_outputs p = map fst (output_map p)"

section \<open>Notions used to state the properties\<close>

text \<open>What one pass of the outer loop does at position \<open>i\<close> of the chain \<open>names\<close>:
  the path is the join of the names up to and including position \<open>i\<close>.\<close>

definition merge_step ::
  "(string \<Rightarrow> stage option) \<Rightarrow> string list \<Rightarrow> nat \<Rightarrow> (string \<times> string) list
     \<Rightarrow> (string \<times> string) list" where
  "merge_step fs names i om =
     (case fs (names ! i) of
        None \<Rightarrow> om
      | Some st \<Rightarrow> record_outputs (outputs st) (dot_join (take (Suc i) names)) om)"

text \<open>The stage found at position \<open>i\<close> declares the output \<open>f\<close>.\<close>

definition declares :: "(string \<Rightarrow> stage option) \<Rightarrow> string list \<Rightarrow> nat \<Rightarrow> string \<Rightarrow> bool" where
  "declares fs names i f =
     (case fs (names ! i) of None \<Rightarrow> False | Some st \<Rightarrow> f \<in> set (outputs st))"

text \<open>The lookup of the pipeline \<open>p\<close>: \<^verbatim>\<open>self.stagestack._find_stage\<close>.\<close>

definition Pipeline_find_stage :: "session \<Rightarrow> pipeline \<Rightarrow> string \<Rightarrow> stage option" where
  "Pipeline_find_stage s p = find_stage s (stack_objs s (stagestack p))"

text \<open>Consistency of the memo table: a memoized reference is allocated, the instance
  it points to carries the key it is stored under, the key is not that of the empty
  chain, and every allocated instance is the one memoized for its key.\<close>

definition memo_ok :: "session \<Rightarrow> bool" where
  "memo_ok s =
     ((\<forall>k r. stacks s k = Some r \<longrightarrow>
          r < next_stack s \<and> stack_name (stack_objs s r) = k \<and> k \<noteq> []) \<and>
      (\<forall>r. r < next_stack s \<longrightarrow> stacks s (stack_name (stack_objs s r)) = Some r))"

text \<open>A name that can be read back from a chain key: it is not empty and holds no
  separator.\<close>

definition plain_name :: "string \<Rightarrow> bool" where
  "plain_name n = (n \<noteq> [] \<and> CHR ''.'' \<notin> set n)"

text \<open>Every memoized chain key stands for a chain that is not empty and has known names
  only: the keys that the constructor of a stack accepts.\<close>

definition memo_valid :: "session \<Rightarrow> bool" where
  "memo_valid s =
     (\<forall>k r. stacks s k = Some r \<longrightarrow>
        chain_of_key k \<noteq> [] \<and> list_all (known_name s) (chain_of_key k))"

text \<open>The pipeline to which \<^verbatim>\<open>project\<close> delegates: the first stage name is not a
  project and names a registered pipeline. \<open>delegates s n p\<close> follows \<open>n\<close> such steps.\<close>

definition delegate :: "session \<Rightarrow> pipeline \<Rightarrow> pipeline option" where
  "delegate s p =
     (case list_objs s (stages p) of
        [] \<Rightarrow> None
      | n # ns \<Rightarrow> (case projects s n of Some pr \<Rightarrow> None | None \<Rightarrow> pipelines s n))"

primrec delegates :: "session \<Rightarrow> nat \<Rightarrow> pipeline \<Rightarrow> pipeline option" where
  "delegates s 0 p = Some p"
| "delegates s (Suc n) p =
     (case delegate s p of None \<Rightarrow> None | Some q \<Rightarrow> delegates s n q)"

section \<open>Example configurations\<close>

text \<open>The scenario of the spec: stages \<^verbatim>\<open>import\<close> and \<^verbatim>\<open>trim_bbmap\<close>, a project
  \<^verbatim>\<open>proj1\<close>, and the list object \<open>0\<close> holding the chain
  \<^verbatim>\<open>["proj1", "import", "trim_bbmap"]\<close>. Further list objects: \<open>1\<close> is empty,
  \<open>2\<close> is a chain that starts with a stage, \<open>3\<close> a chain rooted in the pipeline
  \<^verbatim>\<open>qc\<close>, \<open>4\<close> a chain rooted in the pipeline \<^verbatim>\<open>loop\<close>.\<close>

definition ex_stages :: "string \<rightharpoonup> stage" where
  "ex_stages =
     [''import'' \<mapsto> \<lparr>outputs = [''reads.fastq'']\<rparr>,
      ''trim_bbmap'' \<mapsto> \<lparr>outputs = [''reads.fastq'', ''log.txt'']\<rparr>]"

definition ex_session :: session where
  "ex_session =
     \<lparr>projects = [''proj1'' \<mapsto> Project ''proj1''],
      pipelines = Map.empty,
      stage_registry = ex_stages,
      find_stage = (\<lambda>stk. ex_stages),
      stacks = Map.empty,
      stack_objs = (\<lambda>r. \<lparr>stack_name = [], stage_names = []\<rparr>),
      next_stack = 0,
      list_objs = (\<lambda>r. [])
        (0 := [''proj1'', ''import'', ''trim_bbmap''],
         2 := [''import'', ''trim_bbmap''],
         3 := [''qc'', ''trim_bbmap''],
         4 := [''loop'', ''import'']),
      next_list = 5\<rparr>"

definition ex_pipeline :: pipeline where
  "ex_pipeline =
     \<lparr>name = ''qc'', stages = 0, stagestack = 0,
      output_map = [(''reads.fastq'', ''proj1.import.trim_bbmap''),
                    (''log.txt'', ''proj1.import.trim_bbmap'')]\<rparr>"

definition ex_session' :: session where
  "ex_session' =
     ex_session
       \<lparr>stacks := [''proj1.import.trim_bbmap'' \<mapsto> 0],
        stack_objs := (stack_objs ex_session)
          (0 := \<lparr>stack_name = ''proj1.import.trim_bbmap'',
                  stage_names = [''proj1'', ''import'', ''trim_bbmap'']\<rparr>),
        next_stack := 1,
        list_objs := (list_objs ex_session)(5 := []),
        next_list := 6\<rparr>"

text \<open>The pipeline constructed from list object \<open>2\<close>, whose chain starts with the
  stage \<^verbatim>\<open>import\<close>, and the session after its construction.\<close>

definition ex_nop :: pipeline where
  "ex_nop =
     \<lparr>name = ''nop'', stages = 2, stagestack = 0,
      output_map = [(''reads.fastq'', ''import.trim_bbmap''),
                    (''log.txt'', ''import.trim_bbmap'')]\<rparr>"

definition ex_session_nop :: session where
  "ex_session_nop =
     ex_session
       \<lparr>stacks := [''import.trim_bbmap'' \<mapsto> 0],
        stack_objs := (stack_objs ex_session)
          (0 := \<lparr>stack_name = ''import.trim_bbmap'',
                  stage_names = [''import'', ''trim_bbmap'']\<rparr>),
        next_stack := 1,
        list_objs := (list_objs ex_session)(5 := []),
        next_list := 6\<rparr>"

text \<open>The example session with list object \<open>1\<close> holding a chain whose first name no
  registry knows.\<close>

definition ex_session_unknown :: session where
  "ex_session_unknown =
     ex_session\<lparr>list_objs := (list_objs ex_session)(1 := [''nosuch'', ''import''])\<rparr>"

text \<open>A configuration whose pipeline registry holds the pipeline \<^verbatim>\<open>qc\<close> above, a
  pipeline \<^verbatim>\<open>full\<close> rooted in \<^verbatim>\<open>qc\<close>, and a pipeline \<^verbatim>\<open>loop\<close> rooted in
  itself.\<close>

definition ex_full :: pipeline where
  "ex_full = \<lparr>name = ''full'', stages = 3, stagestack = 1, output_map = []\<rparr>"

definition ex_loop :: pipeline where
  "ex_loop = \<lparr>name = ''loop'', stages = 4, stagestack = 2, output_map = []\<rparr>"

definition ex_config :: session where
  "ex_config =
     ex_session'
       \<lparr>pipelines := [''qc'' \<mapsto> ex_pipeline, ''full'' \<mapsto> ex_full, ''loop'' \<mapsto> ex_loop]\<rparr>"

section \<open>Properties\<close>

lemma map_of_record_outputs:
  "map_of (record_outputs fns path om) f =
     (case map_of om f of Some v \<Rightarrow> Some v
      | None \<Rightarrow> if f \<in> set fns then Some path else None)"
  by (induction fns arbitrary: om) (auto split: option.splits simp: map_add_def)

lemma keys_record_outputs:
  "fst ` set (record_outputs fns path om) = fst ` set om \<union> set fns"
  by (induction fns arbitrary: om) (auto simp: map_of_eq_None_iff)

lemma distinct_record_outputs:
  "distinct (map fst om) \<Longrightarrow> distinct (map fst (record_outputs fns path om))"
  by (induction fns arbitrary: om) (auto simp: map_of_eq_None_iff)

lemma dot_join_snoc:
  "dot_join (xs @ [x]) = (if xs = [] then x else dot_join xs @ ''.'' @ x)"
  by (induction xs rule: dot_join.induct) auto

lemma merge_loop_Nil: "h r = [] \<Longrightarrow> merge_loop fs r h om = (h, om)"
  by (subst merge_loop.simps) simp

lemma merge_loop_None:
  "h r \<noteq> [] \<Longrightarrow> fs (last (h r)) = None \<Longrightarrow>
   merge_loop fs r h om = merge_loop fs r (h(r := butlast (h r))) om"
  by (subst merge_loop.simps) simp

lemma merge_loop_Some:
  "h r \<noteq> [] \<Longrightarrow> fs (last (h r)) = Some st \<Longrightarrow>
   merge_loop fs r h om =
     merge_loop fs r (h(r := butlast (h r))) (record_outputs (outputs st) (dot_join (h r)) om)"
  by (subst merge_loop.simps) simp

lemma merge_loop_store:
  "fst (merge_loop fs r h om) = h(r := [])"
proof (induction fs r h om rule: merge_loop.induct)
  case (1 fs r h om)
  show ?case
  proof (cases "h r = []")
    case True
    then show ?thesis by (auto simp: merge_loop_Nil)
  next
    case False
    show ?thesis
    proof (cases "fs (last (h r))")
      case None
      show ?thesis
        using "1.IH"(1) False None by (auto simp: merge_loop_None fun_upd_def fun_eq_iff)
    next
      case (Some st)
      show ?thesis
        using "1.IH"(2) False Some by (auto simp: merge_loop_Some fun_upd_def fun_eq_iff)
    qed
  qed
qed

lemma merge_step_butlast:
  "Suc i < length names \<Longrightarrow> merge_step fs (butlast names) i = merge_step fs names i"
  by (auto simp: fun_eq_iff merge_step_def nth_butlast take_butlast split: option.splits)

lemma fold_merge_step_butlast:
  "n < length names \<Longrightarrow>
   fold (merge_step fs (butlast names)) (rev [0..<n]) om =
   fold (merge_step fs names) (rev [0..<n]) om"
  by (rule fold_cong) (auto simp: merge_step_butlast)

lemma merge_loop_fold:
  "snd (merge_loop fs r h om) = fold (merge_step fs (h r)) (rev [0..<length (h r)]) om"
proof (induction fs r h om rule: merge_loop.induct)
  case (1 fs r h om)
  show ?case
  proof (cases "h r = []")
    case True
    then show ?thesis by (auto simp: merge_loop_Nil)
  next
    case False
    have len: "length (h r) = Suc (length (h r) - 1)" using False by simp
    have lastn: "last (h r) = h r ! (length (h r) - 1)" using False by (simp add: last_conv_nth)
    have unf: "fold (merge_step fs (h r)) (rev [0..<length (h r)]) om =
               fold (merge_step fs (h r)) (rev [0..<length (h r) - 1]) (merge_step fs (h r) (length (h r) - 1) om)"
      by (subst len) simp
    show ?thesis
    proof (cases "fs (last (h r))")
      case None
      have "merge_step fs (h r) (length (h r) - 1) om = om"
        using None lastn by (simp add: merge_step_def)
      then show ?thesis
        using "1.IH"(1) False None
        by (simp add: merge_loop_None unf fold_merge_step_butlast fun_upd_def)
    next
      case (Some st)
      have "merge_step fs (h r) (length (h r) - 1) om = record_outputs (outputs st) (dot_join (h r)) om"
        using Some lastn False by (simp add: merge_step_def)
      then show ?thesis
        using "1.IH"(2) False Some
        by (simp add: merge_loop_Some unf fold_merge_step_butlast fun_upd_def)
    qed
  qed
qed

lemma ex_init: "Pipeline_init ex_session ''qc'' 0 = Inr (ex_pipeline, ex_session')"
  by (simp add: Pipeline_init_def ex_session_def ex_session'_def ex_pipeline_def ex_stages_def
      StageStack_get_def new_stack_def chain_of_key_def known_name_def merge_loop.simps)

lemma StageStack_get_frame:
  assumes "StageStack_get s k = Inr (r, s1)"
  shows "find_stage s1 = find_stage s" "list_objs s1 = list_objs s" "next_list s1 = next_list s"
    "projects s1 = projects s" "pipelines s1 = pipelines s" "stage_registry s1 = stage_registry s"
    "stacks s1 k = Some r"
  using assms by (auto simp: StageStack_get_def split: option.splits sum.splits)

lemma Pipeline_init_Inr:
  assumes "Pipeline_init s nm cfg = Inr (p, s')"
  obtains stk s1 where
    "StageStack_get s (dot_join (list_objs s cfg)) = Inr (stk, s1)"
    "p = \<lparr>name = nm, stages = cfg, stagestack = stk,
          output_map = snd (merge_loop (find_stage s1 (stack_objs s1 stk)) (next_list s1)
            ((list_objs s1)(next_list s1 := list_objs s1 cfg)) [])\<rparr>"
    "s' = s1\<lparr>list_objs := fst (merge_loop (find_stage s1 (stack_objs s1 stk)) (next_list s1)
            ((list_objs s1)(next_list s1 := list_objs s1 cfg)) []),
          next_list := Suc (next_list s1)\<rparr>"
  using assms by (auto simp: Pipeline_init_def Let_def split: sum.splits)

lemma Pipeline_init_output_map:
  assumes "Pipeline_init s nm cfg = Inr (p, s')"
  shows "output_map p =
         fold (merge_step (Pipeline_find_stage s' p) (list_objs s cfg))
           (rev [0..<length (list_objs s cfg)]) []"
proof -
  from assms obtain stk s1 where
    g: "StageStack_get s (dot_join (list_objs s cfg)) = Inr (stk, s1)"
    and p: "p = \<lparr>name = nm, stages = cfg, stagestack = stk,
          output_map = snd (merge_loop (find_stage s1 (stack_objs s1 stk)) (next_list s1)
            ((list_objs s1)(next_list s1 := list_objs s1 cfg)) [])\<rparr>"
    and s': "s' = s1\<lparr>list_objs := fst (merge_loop (find_stage s1 (stack_objs s1 stk)) (next_list s1)
            ((list_objs s1)(next_list s1 := list_objs s1 cfg)) []),
          next_list := Suc (next_list s1)\<rparr>"
    by (rule Pipeline_init_Inr)
  have "Pipeline_find_stage s' p = find_stage s1 (stack_objs s1 stk)"
    by (simp add: Pipeline_find_stage_def p s')
  then show ?thesis
    using StageStack_get_frame(2)[OF g] by (simp add: p merge_loop_fold)
qed

lemma Pipeline_init_store:
  assumes "Pipeline_init s nm cfg = Inr (p, s')"
  shows "list_objs s' = (list_objs s)(next_list s := [])" "next_list s' = Suc (next_list s)"
    "stages p = cfg" "name p = nm"
    "stacks s' (dot_join (list_objs s cfg)) = Some (stagestack p)"
    "StageStack_get s (dot_join (list_objs s cfg)) =
       Inr (stagestack p, s'\<lparr>list_objs := list_objs s, next_list := next_list s\<rparr>)"
proof -
  from assms obtain stk s1 where
    g: "StageStack_get s (dot_join (list_objs s cfg)) = Inr (stk, s1)"
    and p: "p = \<lparr>name = nm, stages = cfg, stagestack = stk,
          output_map = snd (merge_loop (find_stage s1 (stack_objs s1 stk)) (next_list s1)
            ((list_objs s1)(next_list s1 := list_objs s1 cfg)) [])\<rparr>"
    and s': "s' = s1\<lparr>list_objs := fst (merge_loop (find_stage s1 (stack_objs s1 stk)) (next_list s1)
            ((list_objs s1)(next_list s1 := list_objs s1 cfg)) []),
          next_list := Suc (next_list s1)\<rparr>"
    by (rule Pipeline_init_Inr)
  note fr = StageStack_get_frame[OF g]
  show "list_objs s' = (list_objs s)(next_list s := [])"
    by (simp add: s' merge_loop_store fr)
  show "next_list s' = Suc (next_list s)" by (simp add: s' fr)
  show "stages p = cfg" "name p = nm" by (simp_all add: p)
  show "stacks s' (dot_join (list_objs s cfg)) = Some (stagestack p)"
    using fr(7) by (simp add: s' p)
  show "StageStack_get s (dot_join (list_objs s cfg)) =
       Inr (stagestack p, s'\<lparr>list_objs := list_objs s, next_list := next_list s\<rparr>)"
    using fr(2,3) by (simp add: g p s')
qed

lemma map_of_merge_step:
  "map_of (merge_step fs names i om) f =
     (case map_of om f of Some v \<Rightarrow> Some v
      | None \<Rightarrow> if declares fs names i f then Some (dot_join (take (Suc i) names)) else None)"
  by (simp add: merge_step_def declares_def map_of_record_outputs split: option.splits)

lemma fold_merge_step_keeps:
  "map_of om f = Some v \<Longrightarrow> map_of (fold (merge_step fs names) js om) f = Some v"
  by (induction js arbitrary: om) (simp_all add: map_of_merge_step)

lemma fold_merge_step_none:
  "map_of om f = None \<Longrightarrow> \<forall>j\<in>set js. \<not> declares fs names j f \<Longrightarrow>
   map_of (fold (merge_step fs names) js om) f = None"
  by (induction js arbitrary: om) (simp_all add: map_of_merge_step)

lemma rev_upt_split:
  "i < n \<Longrightarrow> rev [0..<n] = rev [Suc i..<n] @ i # rev [0..<i]"
proof -
  assume "i < n"
  then have "[0..<n] = [0..<i] @ i # [Suc i..<n]"
    using upt_add_eq_append[of 0 i "n - i"] upt_conv_Cons[of i n] by simp
  then show ?thesis by simp
qed

lemma fold_merge_step_last_wins:
  assumes "i < n" and "declares fs names i f"
    and "\<forall>j. i < j \<and> j < n \<longrightarrow> \<not> declares fs names j f"
    and "map_of om f = None"
  shows "map_of (fold (merge_step fs names) (rev [0..<n]) om) f =
         Some (dot_join (take (Suc i) names))"
proof -
  have a: "map_of (fold (merge_step fs names) (rev [Suc i..<n]) om) f = None"
    using assms(3,4) by (intro fold_merge_step_none) auto
  have b: "map_of (merge_step fs names i (fold (merge_step fs names) (rev [Suc i..<n]) om)) f =
           Some (dot_join (take (Suc i) names))"
    using a assms(2) by (simp add: map_of_merge_step)
  show ?thesis
    using fold_merge_step_keeps[OF b] by (simp add: rev_upt_split[OF assms(1)])
qed

lemma keys_merge_step:
  "fst ` set (merge_step fs names i om) = fst ` set om \<union> {f. declares fs names i f}"
  by (auto simp: merge_step_def declares_def keys_record_outputs split: option.splits)

lemma distinct_merge_step:
  "distinct (map fst om) \<Longrightarrow> distinct (map fst (merge_step fs names i om))"
  by (auto simp: merge_step_def distinct_record_outputs split: option.splits)

lemma keys_fold_merge_step:
  "fst ` set (fold (merge_step fs names) js om) =
     fst ` set om \<union> {f. \<exists>i\<in>set js. declares fs names i f}"
  by (induction js arbitrary: om) (auto simp: keys_merge_step)

lemma distinct_fold_merge_step:
  "distinct (map fst om) \<Longrightarrow> distinct (map fst (fold (merge_step fs names) js om))"
  by (induction js arbitrary: om) (auto simp: distinct_merge_step)

lemma fold_merge_step_filter:
  "fold (merge_step fs names) (filter (\<lambda>i. fs (names ! i) \<noteq> None) js) om =
   fold (merge_step fs names) js om"
  by (induction js arbitrary: om) (auto simp: merge_step_def)

lemma length_dot_join_take:
  "Suc i < length names \<Longrightarrow>
   length (dot_join (take (Suc (Suc i)) names)) =
     Suc (length (dot_join (take (Suc i) names)) + length (names ! Suc i))"
proof -
  assume lt: "Suc i < length names"
  have ne: "take (Suc i) names \<noteq> []"
    using lt by (cases names) auto
  have "take (Suc (Suc i)) names = take (Suc i) names @ [names ! Suc i]"
    using lt by (rule take_Suc_conv_app_nth)
  then have "dot_join (take (Suc (Suc i)) names) =
             dot_join (take (Suc i) names) @ ''.'' @ names ! Suc i"
    using ne by (simp only: dot_join_snoc if_False)
  then show ?thesis by simp
qed

lemma length_dot_join_mono:
  "j < i \<Longrightarrow> i < length names \<Longrightarrow>
   length (dot_join (take (Suc j) names)) < length (dot_join (take (Suc i) names))"
proof (induction i)
  case 0
  then show ?case by simp
next
  case (Suc i)
  have step: "length (dot_join (take (Suc i) names)) < length (dot_join (take (Suc (Suc i)) names))"
    using Suc.prems(2) by (simp add: length_dot_join_take)
  show ?case
  proof (cases "j = i")
    case True
    then show ?thesis using step by simp
  next
    case False
    then have "j < i" using Suc.prems(1) by simp
    then have "length (dot_join (take (Suc j) names)) < length (dot_join (take (Suc i) names))"
      using Suc.IH Suc.prems(2) by simp
    then show ?thesis using step by simp
  qed
qed

lemma vals_record_outputs:
  "snd ` set (record_outputs fns path om) \<subseteq> snd ` set om \<union> {path}"
proof (induction fns arbitrary: om)
  case Nil
  then show ?case by auto
next
  case (Cons a fns)
  show ?case
  proof (cases "map_of om a = None")
    case True
    then show ?thesis using Cons.IH[of "om @ [(a, path)]"] by auto
  next
    case False
    then show ?thesis using Cons.IH[of om] by auto
  qed
qed

lemma vals_merge_step:
  "snd ` set (merge_step fs names i om) \<subseteq>
     snd ` set om \<union> {pth. fs (names ! i) \<noteq> None \<and> pth = dot_join (take (Suc i) names)}"
proof (cases "fs (names ! i)")
  case None
  then show ?thesis by (simp add: merge_step_def)
next
  case (Some st)
  then show ?thesis
    using vals_record_outputs[of "outputs st" "dot_join (take (Suc i) names)" om]
    by (auto simp: merge_step_def)
qed

lemma vals_fold_merge_step:
  "snd ` set (fold (merge_step fs names) js om) \<subseteq>
     snd ` set om \<union> {pth. \<exists>j\<in>set js. fs (names ! j) \<noteq> None \<and> pth = dot_join (take (Suc j) names)}"
proof (induction js arbitrary: om)
  case Nil
  then show ?case by simp
next
  case (Cons j js)
  show ?case
    using Cons.IH[of "merge_step fs names j om"] vals_merge_step[of fs names j om]
    by auto
qed

lemma dot_join_take_inj:
  assumes "i < length names" "j < length names"
    and "dot_join (take (Suc i) names) = dot_join (take (Suc j) names)"
  shows "i = j"
proof (rule ccontr)
  assume "i \<noteq> j"
  then consider "i < j" | "j < i" by linarith
  then show False
    using length_dot_join_mono[of i j names] length_dot_join_mono[of j i names] assms
    by cases auto
qed

text \<open>
  Claim C1 (output-map merge precedence). The constructor walks the chain from the last
  name to the first and records an output only when the map has no entry for it. So if
  position \<open>i\<close> of the chain declares the output \<open>f\<close> and no later position does, the
  constructed pipeline maps \<open>f\<close> to the path of position \<open>i\<close> (the join of the names
  up to and including \<open>i\<close>), and to the path of no earlier position.
\<close>

theorem output_map_tail_wins:
  assumes "Pipeline_init s nm cfg = Inr (p, s')"
    and "i < length (list_objs s cfg)"
    and "declares (Pipeline_find_stage s' p) (list_objs s cfg) i f"
    and "\<forall>j. i < j \<and> j < length (list_objs s cfg) \<longrightarrow>
           \<not> declares (Pipeline_find_stage s' p) (list_objs s cfg) j f"
  shows "map_of (output_map p) f = Some (dot_join (take (Suc i) (list_objs s cfg))) \<and>
         (\<forall>j<i. map_of (output_map p) f \<noteq> Some (dot_join (take (Suc j) (list_objs s cfg))))"
proof
  show win: "map_of (output_map p) f = Some (dot_join (take (Suc i) (list_objs s cfg)))"
    unfolding Pipeline_init_output_map[OF assms(1)]
    using assms(2-4) by (intro fold_merge_step_last_wins) auto
  show "\<forall>j<i. map_of (output_map p) f \<noteq> Some (dot_join (take (Suc j) (list_objs s cfg)))"
  proof (intro allI impI)
    fix j assume "j < i"
    then have "length (dot_join (take (Suc j) (list_objs s cfg))) <
               length (dot_join (take (Suc i) (list_objs s cfg)))"
      using assms(2) by (rule length_dot_join_mono)
    then show "map_of (output_map p) f \<noteq> Some (dot_join (take (Suc j) (list_objs s cfg)))"
      using win by auto
  qed
qed

text \<open>
  Claim C7 (unresolvable positions are skipped). Once the stack of the chain exists,
  the constructor returns a pipeline whatever the lookups answer; its output map is the
  merge over the positions whose lookup found a stage, in tail-first order, and a
  position whose lookup found nothing owns no entry of the map.
\<close>

theorem unresolved_positions_skipped:
  assumes "StageStack_get s (dot_join (list_objs s cfg)) = Inr (stk, s1)"
  shows "\<exists>p s'. Pipeline_init s nm cfg = Inr (p, s') \<and>
           output_map p =
             fold (merge_step (Pipeline_find_stage s' p) (list_objs s cfg))
               (filter (\<lambda>i. Pipeline_find_stage s' p (list_objs s cfg ! i) \<noteq> None)
                  (rev [0..<length (list_objs s cfg)])) [] \<and>
           (\<forall>i<length (list_objs s cfg).
              Pipeline_find_stage s' p (list_objs s cfg ! i) = None \<longrightarrow>
              dot_join (take (Suc i) (list_objs s cfg)) \<notin> snd ` set (output_map p))"
proof -
  obtain p s' where init: "Pipeline_init s nm cfg = Inr (p, s')"
    using assms by (simp add: Pipeline_init_def Let_def)
  let ?fs = "Pipeline_find_stage s' p" and ?names = "list_objs s cfg"
  note om = Pipeline_init_output_map[OF init]
  have a: "output_map p = fold (merge_step ?fs ?names)
      (filter (\<lambda>i. ?fs (?names ! i) \<noteq> None) (rev [0..<length ?names])) []"
    by (simp only: om fold_merge_step_filter)
  have b: "dot_join (take (Suc i) ?names) \<notin> snd ` set (output_map p)"
    if i: "i < length ?names" and none: "?fs (?names ! i) = None" for i
  proof
    assume "dot_join (take (Suc i) ?names) \<in> snd ` set (output_map p)"
    then obtain j where j: "j < length ?names" "?fs (?names ! j) \<noteq> None"
      "dot_join (take (Suc i) ?names) = dot_join (take (Suc j) ?names)"
      using vals_fold_merge_step[of ?fs ?names "rev [0..<length ?names]" "[]"]
      unfolding om by auto
    then have "i = j" using i by (intro dot_join_take_inj) auto
    then show False using j(2) none by simp
  qed
  show ?thesis using init a b by blast
qed

text \<open>
  Claim C1 at the scenario of the spec: \<^verbatim>\<open>import\<close> (position 1) and \<^verbatim>\<open>trim_bbmap\<close>
  (position 2) both declare \<^verbatim>\<open>reads.fastq\<close>; the entry carries the path of position 2.
\<close>

theorem output_map_tail_wins_witness:
  "Pipeline_init ex_session ''qc'' 0 = Inr (ex_pipeline, ex_session') \<and>
   declares (Pipeline_find_stage ex_session' ex_pipeline) (list_objs ex_session 0) 1 ''reads.fastq'' \<and>
   declares (Pipeline_find_stage ex_session' ex_pipeline) (list_objs ex_session 0) 2 ''reads.fastq'' \<and>
   map_of (output_map ex_pipeline) ''reads.fastq'' =
     Some (dot_join (take 3 (list_objs ex_session 0))) \<and>
   map_of (output_map ex_pipeline) ''reads.fastq'' \<noteq>
     Some (dot_join (take 2 (list_objs ex_session 0)))"
proof -
  have d1: "declares (Pipeline_find_stage ex_session' ex_pipeline) (list_objs ex_session 0) 1 ''reads.fastq''"
    by (simp add: declares_def Pipeline_find_stage_def ex_session'_def ex_session_def ex_stages_def)
  have d2: "declares (Pipeline_find_stage ex_session' ex_pipeline) (list_objs ex_session 0) 2 ''reads.fastq''"
    by (simp add: declares_def Pipeline_find_stage_def ex_session'_def ex_session_def ex_stages_def)
  have len: "(2::nat) < length (list_objs ex_session 0)"
    by (simp add: ex_session_def)
  have last: "\<forall>j. 2 < j \<and> j < length (list_objs ex_session 0) \<longrightarrow>
      \<not> declares (Pipeline_find_stage ex_session' ex_pipeline) (list_objs ex_session 0) j ''reads.fastq''"
    by (auto simp: ex_session_def)
  note th = output_map_tail_wins[OF ex_init len d2 last]
  have a: "map_of (output_map ex_pipeline) ''reads.fastq'' =
     Some (dot_join (take 3 (list_objs ex_session 0)))"
    using th by (simp add: eval_nat_numeral)
  have b: "map_of (output_map ex_pipeline) ''reads.fastq'' \<noteq>
     Some (dot_join (take 2 (list_objs ex_session 0)))"
    using conjunct2[OF th, rule_format, of 1] by (simp add: eval_nat_numeral)
  show ?thesis using ex_init d1 d2 a b by blast
qed

text \<open>
  Claim C7 at the scenario of the spec: position 0 (\<^verbatim>\<open>proj1\<close>, a project) is not a
  stage; the merge runs over positions 2 and 1 and no entry carries the path of
  position 0.
\<close>

theorem unresolved_positions_skipped_witness:
  "StageStack_get ex_session (dot_join (list_objs ex_session 0)) =
     Inr (0, ex_session'\<lparr>list_objs := list_objs ex_session, next_list := 5\<rparr>) \<and>
   Pipeline_init ex_session ''qc'' 0 = Inr (ex_pipeline, ex_session') \<and>
   Pipeline_find_stage ex_session' ex_pipeline (list_objs ex_session 0 ! 0) = None \<and>
   output_map ex_pipeline =
     fold (merge_step (Pipeline_find_stage ex_session' ex_pipeline) (list_objs ex_session 0))
       [2, 1] [] \<and>
   dot_join (take 1 (list_objs ex_session 0)) \<notin> snd ` set (output_map ex_pipeline)"
proof -
  have g: "StageStack_get ex_session (dot_join (list_objs ex_session 0)) =
     Inr (0, ex_session'\<lparr>list_objs := list_objs ex_session, next_list := 5\<rparr>)"
    by (simp add: ex_session_def ex_session'_def ex_stages_def
        StageStack_get_def new_stack_def chain_of_key_def known_name_def)
  from unresolved_positions_skipped[OF g, of "''qc''"] obtain p s' where
    i: "Pipeline_init ex_session ''qc'' 0 = Inr (p, s')" and
    om: "output_map p =
           fold (merge_step (Pipeline_find_stage s' p) (list_objs ex_session 0))
             (filter (\<lambda>i. Pipeline_find_stage s' p (list_objs ex_session 0 ! i) \<noteq> None)
                (rev [0..<length (list_objs ex_session 0)])) []" and
    sk: "\<forall>i<length (list_objs ex_session 0).
           Pipeline_find_stage s' p (list_objs ex_session 0 ! i) = None \<longrightarrow>
           dot_join (take (Suc i) (list_objs ex_session 0)) \<notin> snd ` set (output_map p)"
    by blast
  have eq: "p = ex_pipeline" "s' = ex_session'"
    using i ex_init by simp_all
  have fs: "Pipeline_find_stage ex_session' ex_pipeline = ex_stages"
    by (simp add: Pipeline_find_stage_def ex_session'_def ex_session_def)
  have names: "list_objs ex_session 0 = [''proj1'', ''import'', ''trim_bbmap'']"
    by (simp add: ex_session_def)
  have none0: "Pipeline_find_stage ex_session' ex_pipeline (list_objs ex_session 0 ! 0) = None"
    by (simp add: fs names ex_stages_def)
  have filt: "filter (\<lambda>i. Pipeline_find_stage ex_session' ex_pipeline (list_objs ex_session 0 ! i) \<noteq> None)
                (rev [0..<length (list_objs ex_session 0)]) = [2, 1]"
    by (simp add: fs names ex_stages_def upt_rec)
  have a: "output_map ex_pipeline =
     fold (merge_step (Pipeline_find_stage ex_session' ex_pipeline) (list_objs ex_session 0))
       [2, 1] []"
    using om unfolding eq filt .
  have "0 < length (list_objs ex_session 0)" by (simp add: names)
  then have b: "dot_join (take 1 (list_objs ex_session 0)) \<notin> snd ` set (output_map ex_pipeline)"
    using sk[rule_format, of 0] none0 unfolding eq by simp
  show ?thesis using g ex_init none0 a b by blast
qed

lemma StageStack_get_name:
  assumes "memo_ok s" and "StageStack_get s k = Inr (r, s1)"
  shows "stack_name (stack_objs s1 r) = k"
proof (cases "stacks s k")
  case None
  then show ?thesis
    using assms(2)
    by (auto simp: StageStack_get_def new_stack_def Let_def split: sum.splits if_splits)
next
  case (Some r')
  then show ?thesis
    using assms by (auto simp: StageStack_get_def memo_ok_def)
qed

text \<open>
  Claim C8 (outputs are the keys of the output map). For any pipeline object,
  \<^verbatim>\<open>outputs\<close> lists exactly the keys of its output map. For a constructed pipeline the
  list has no repetition and its length is the number of distinct output names declared
  by the stages found along the chain.
\<close>

theorem outputs_key_set:
  assumes "Pipeline_init s nm cfg = Inr (p, s')"
  shows "set (Pipeline_outputs q) = dom (map_of (output_map q)) \<and>
         distinct (Pipeline_outputs p) \<and>
         length (Pipeline_outputs p) =
           card {f. \<exists>i<length (list_objs s cfg).
                      declares (Pipeline_find_stage s' p) (list_objs s cfg) i f}"
proof -
  let ?fs = "Pipeline_find_stage s' p" and ?names = "list_objs s cfg"
  note om = Pipeline_init_output_map[OF assms]
  have a: "set (Pipeline_outputs q) = dom (map_of (output_map q))"
    by (simp add: Pipeline_outputs_def dom_map_of_conv_image_fst)
  have d: "distinct (Pipeline_outputs p)"
    unfolding Pipeline_outputs_def om by (rule distinct_fold_merge_step) simp
  have "set (Pipeline_outputs p) = {f. \<exists>i<length ?names. declares ?fs ?names i f}"
    unfolding Pipeline_outputs_def om
    using keys_fold_merge_step[of ?fs ?names "rev [0..<length ?names]" "[]"] by auto
  then have c: "length (Pipeline_outputs p) = card {f. \<exists>i<length ?names. declares ?fs ?names i f}"
    using distinct_card[OF d] by simp
  show ?thesis using a d c by blast
qed

text \<open>
  Claim C8 at the scenario of the spec: two distinct outputs.
\<close>

theorem outputs_key_set_witness:
  "Pipeline_init ex_session ''qc'' 0 = Inr (ex_pipeline, ex_session') \<and>
   set (Pipeline_outputs ex_pipeline) = dom (map_of (output_map ex_pipeline)) \<and>
   Pipeline_outputs ex_pipeline = [''reads.fastq'', ''log.txt''] \<and>
   distinct (Pipeline_outputs ex_pipeline) \<and>
   card {f. \<exists>i<length (list_objs ex_session 0).
              declares (Pipeline_find_stage ex_session' ex_pipeline) (list_objs ex_session 0) i f} = 2"
proof -
  note th = outputs_key_set[OF ex_init, of ex_pipeline]
  have o: "Pipeline_outputs ex_pipeline = [''reads.fastq'', ''log.txt'']"
    by (simp add: Pipeline_outputs_def ex_pipeline_def)
  have "length (Pipeline_outputs ex_pipeline) = 2"
    by (simp add: o)
  then show ?thesis using th ex_init o by simp
qed

text \<open>
  Claim C9 (the path of a pipeline is its name). \<^verbatim>\<open>get_path\<close> returns the name of the
  pipeline for every suffix argument, the default \<^verbatim>\<open>None\<close> included, and for a
  constructed pipeline this is the name given to the constructor.
\<close>

theorem get_path_is_name:
  "get_path p suffix = name p \<and> get_path p suffix = get_path p None \<and>
   (Pipeline_init s nm cfg = Inr (p, s') \<longrightarrow> get_path p suffix = nm)"
  using Pipeline_init_store(4)[of s nm cfg p s'] by (simp add: get_path_def)

text \<open>
  Claim C9 at the scenario of the spec, with and without a suffix.
\<close>

theorem get_path_is_name_witness:
  "Pipeline_init ex_session ''qc'' 0 = Inr (ex_pipeline, ex_session') \<and>
   get_path ex_pipeline (Some ''all'') = ''qc'' \<and>
   get_path ex_pipeline (Some ''all'') = get_path ex_pipeline None"
  using get_path_is_name[of ex_pipeline "Some ''all''" ex_session "''qc''" 0 ex_session'] ex_init
  by blast

text \<open>
  Claim C10 (construction does not change the configured list). The constructor pops
  names from a newly allocated copy only: the pipeline keeps the reference it was given,
  every list object allocated before the call holds the same names afterwards, the memo
  table maps the join of the full list to the pipeline's stack, and in a consistent
  session that stack carries this join as its chain key.
\<close>

theorem construction_keeps_stage_list:
  assumes "Pipeline_init s nm cfg = Inr (p, s')" and "cfg < next_list s"
  shows "stages p = cfg \<and>
         list_objs s' (stages p) = list_objs s cfg \<and>
         (\<forall>r<next_list s. list_objs s' r = list_objs s r) \<and>
         stacks s' (dot_join (list_objs s' (stages p))) = Some (stagestack p) \<and>
         (memo_ok s \<longrightarrow>
            stack_name (stack_objs s' (stagestack p)) = dot_join (list_objs s' (stages p)))"
proof -
  note st = Pipeline_init_store[OF assms(1)]
  have a: "\<forall>r<next_list s. list_objs s' r = list_objs s r"
    by (simp add: st(1))
  then have b: "list_objs s' cfg = list_objs s cfg"
    using assms(2) by simp
  have c: "stacks s' (dot_join (list_objs s' (stages p))) = Some (stagestack p)"
    using st(5) by (simp add: st(3) b)
  have d: "stack_name (stack_objs s' (stagestack p)) = dot_join (list_objs s' (stages p))"
    if "memo_ok s"
    using StageStack_get_name[OF that st(6)] by (simp add: st(3) b)
  show ?thesis using st(3) a b c d by simp
qed

lemma ex_memo_ok: "memo_ok ex_session"
  by (simp add: memo_ok_def ex_session_def)

text \<open>
  Claim C10 at the scenario of the spec.
\<close>

theorem construction_keeps_stage_list_witness:
  "Pipeline_init ex_session ''qc'' 0 = Inr (ex_pipeline, ex_session') \<and>
   0 < next_list ex_session \<and> memo_ok ex_session \<and>
   stages ex_pipeline = 0 \<and>
   list_objs ex_session' 0 = [''proj1'', ''import'', ''trim_bbmap''] \<and>
   stacks ex_session' ''proj1.import.trim_bbmap'' = Some (stagestack ex_pipeline) \<and>
   stack_name (stack_objs ex_session' (stagestack ex_pipeline)) = ''proj1.import.trim_bbmap''"
proof -
  have n: "0 < next_list ex_session" by (simp add: ex_session_def)
  note th = construction_keeps_stage_list[OF ex_init n]
  have l: "list_objs ex_session 0 = [''proj1'', ''import'', ''trim_bbmap'']"
    by (simp add: ex_session_def)
  have s0: "stages ex_pipeline = 0" using th by blast
  have e1: "list_objs ex_session' 0 = [''proj1'', ''import'', ''trim_bbmap'']"
    using th unfolding l s0 by blast
  have e2: "dot_join (list_objs ex_session' (stages ex_pipeline)) = ''proj1.import.trim_bbmap''"
    by (simp add: s0 e1)
  have e3: "stacks ex_session' ''proj1.import.trim_bbmap'' = Some (stagestack ex_pipeline)"
    using th unfolding e2 by blast
  have e4: "stack_name (stack_objs ex_session' (stagestack ex_pipeline)) = ''proj1.import.trim_bbmap''"
    using th ex_memo_ok unfolding e2 by blast
  show ?thesis using ex_init n ex_memo_ok s0 e1 e3 e4 by blast
qed

lemma StageStack_get_hit: "stacks s k = Some r \<Longrightarrow> StageStack_get s k = Inr (r, s)"
  by (simp add: StageStack_get_def)

lemma new_stack_Inr:
  "new_stack s k = Inr stk \<Longrightarrow> stack_name stk = k \<and> k \<noteq> []"
  by (auto simp: new_stack_def chain_of_key_def Let_def split: if_splits)

lemma StageStack_get_memo_mono:
  assumes "stacks s k = Some r" and "StageStack_get s k' = Inr (r', s')"
  shows "stacks s' k = Some r"
  using assms by (auto simp: StageStack_get_def split: option.splits sum.splits)

lemma StageStack_get_memo_ok:
  assumes "memo_ok s" and "StageStack_get s k = Inr (r, s1)"
  shows "memo_ok s1"
proof (cases "stacks s k")
  case (Some r')
  then show ?thesis using assms by (simp add: StageStack_get_def)
next
  case None
  then obtain stk where stk: "new_stack s k = Inr stk"
    and s1: "s1 = s\<lparr>stacks := (stacks s)(k \<mapsto> next_stack s),
                    stack_objs := (stack_objs s)(next_stack s := stk),
                    next_stack := Suc (next_stack s)\<rparr>"
    using assms(2) by (auto simp: StageStack_get_def split: sum.splits)
  note nm = new_stack_Inr[OF stk]
  have a: "r' < next_stack s \<and> stack_name (stack_objs s r') = k' \<and> k' \<noteq> []"
    if "stacks s k' = Some r'" for k' r'
    using assms(1) that by (simp add: memo_ok_def)
  have b: "stacks s (stack_name (stack_objs s r')) = Some r'" if "r' < next_stack s" for r'
    using assms(1) that by (simp add: memo_ok_def)
  have c: "stack_name (stack_objs s r') \<noteq> k" if "r' < next_stack s" for r'
    using b[OF that] None by auto
  show ?thesis
    unfolding memo_ok_def s1
    using nm a b c by (auto simp: less_Suc_eq)
qed

lemma StageStack_gets_memo_ok: "memo_ok s \<Longrightarrow> memo_ok (StageStack_gets s ks)"
proof (induction ks arbitrary: s)
  case Nil
  then show ?case by simp
next
  case (Cons k ks)
  show ?case
  proof (cases "StageStack_get s k")
    case (Inl e)
    then show ?thesis using Cons by simp
  next
    case (Inr rs)
    obtain r s1 where rs: "rs = (r, s1)" by (cases rs)
    have "memo_ok s1" using StageStack_get_memo_ok[OF Cons.prems] Inr rs by simp
    then show ?thesis using Cons.IH Inr rs by simp
  qed
qed

lemma StageStack_gets_memo_mono:
  "stacks s k = Some r \<Longrightarrow> stacks (StageStack_gets s ks) k = Some r"
proof (induction ks arbitrary: s)
  case Nil
  then show ?case by simp
next
  case (Cons k' ks)
  show ?case
  proof (cases "StageStack_get s k'")
    case (Inl e)
    then show ?thesis using Cons by simp
  next
    case (Inr rs)
    obtain r' s1 where rs: "rs = (r', s1)" by (cases rs)
    have "stacks s1 k = Some r"
      using StageStack_get_memo_mono[OF Cons.prems] Inr rs by simp
    then show ?thesis using Cons.IH Inr rs by simp
  qed
qed

lemma memo_ok_unique:
  assumes "memo_ok s" "r1 < next_stack s" "r2 < next_stack s"
    "stack_name (stack_objs s r1) = stack_name (stack_objs s r2)"
  shows "r1 = r2"
proof -
  have "stacks s (stack_name (stack_objs s r1)) = Some r1"
    "stacks s (stack_name (stack_objs s r2)) = Some r2"
    using assms(1-3) by (simp_all add: memo_ok_def)
  then show ?thesis using assms(4) by (metis option.inject)
qed

text \<open>
  Claim C5 (memoization identity of \<^verbatim>\<open>StageStack.get\<close>). In a consistent session, once
  a request for the key \<open>k\<close> has returned the reference \<open>r\<close>, a request for \<open>k\<close> after
  any further sequence of requests returns the same reference \<open>r\<close> and allocates
  nothing, and no two allocated instances carry the same chain key.
\<close>

theorem StageStack_get_identity:
  assumes "memo_ok s" and "StageStack_get s k = Inr (r, s1)"
  shows "StageStack_get (StageStack_gets s1 ks) k = Inr (r, StageStack_gets s1 ks) \<and>
         (\<forall>r1 r2. r1 < next_stack (StageStack_gets s1 ks) \<and>
                   r2 < next_stack (StageStack_gets s1 ks) \<and>
                   stack_name (stack_objs (StageStack_gets s1 ks) r1) =
                     stack_name (stack_objs (StageStack_gets s1 ks) r2) \<longrightarrow> r1 = r2)"
proof -
  have "stacks s1 k = Some r"
    using assms(2) by (rule StageStack_get_frame(7))
  then have "stacks (StageStack_gets s1 ks) k = Some r"
    by (rule StageStack_gets_memo_mono)
  then have a: "StageStack_get (StageStack_gets s1 ks) k = Inr (r, StageStack_gets s1 ks)"
    by (rule StageStack_get_hit)
  have "memo_ok (StageStack_gets s1 ks)"
    using StageStack_get_memo_ok[OF assms] by (rule StageStack_gets_memo_ok)
  then show ?thesis using a memo_ok_unique by blast
qed

lemma ex_get:
  "StageStack_get ex_session ''proj1.import.trim_bbmap'' =
     Inr (0, ex_session'\<lparr>list_objs := list_objs ex_session, next_list := 5\<rparr>)"
  by (simp add: ex_session_def ex_session'_def ex_stages_def
      StageStack_get_def new_stack_def chain_of_key_def known_name_def)

text \<open>
  Claim C5 at the scenario of the spec: the full chain is requested, then \<^verbatim>\<open>proj1\<close>
  and the full chain again; two instances exist and the full chain still has reference
  0.
\<close>

theorem StageStack_get_identity_witness:
  "memo_ok ex_session \<and>
   StageStack_get ex_session ''proj1.import.trim_bbmap'' =
     Inr (0, ex_session'\<lparr>list_objs := list_objs ex_session, next_list := 5\<rparr>) \<and>
   StageStack_get
     (StageStack_gets (ex_session'\<lparr>list_objs := list_objs ex_session, next_list := 5\<rparr>)
        [''proj1'', ''proj1.import.trim_bbmap''])
     ''proj1.import.trim_bbmap'' =
     Inr (0, StageStack_gets (ex_session'\<lparr>list_objs := list_objs ex_session, next_list := 5\<rparr>)
               [''proj1'', ''proj1.import.trim_bbmap'']) \<and>
   next_stack (StageStack_gets (ex_session'\<lparr>list_objs := list_objs ex_session, next_list := 5\<rparr>)
        [''proj1'', ''proj1.import.trim_bbmap'']) = 2"
proof -
  let ?s1 = "ex_session'\<lparr>list_objs := list_objs ex_session, next_list := 5\<rparr>"
  note th = StageStack_get_identity[OF ex_memo_ok ex_get, of "[''proj1'', ''proj1.import.trim_bbmap'']"]
  have n: "next_stack (StageStack_gets ?s1 [''proj1'', ''proj1.import.trim_bbmap'']) = 2"
    by (simp add: ex_session_def ex_session'_def ex_stages_def
        StageStack_get_def new_stack_def chain_of_key_def known_name_def)
  show ?thesis using th ex_memo_ok ex_get n by blast
qed

text \<open>
  Claim C6 (an empty stage list is rejected). In a consistent session, constructing a
  pipeline from an empty list of stage names fails with a configuration error; the
  error comes from the request for the stack of the empty chain.
\<close>

theorem empty_chain_fails:
  assumes "memo_ok s" and "list_objs s cfg = []"
  shows "Pipeline_init s nm cfg = Inl (YmpConfigError [] ''Empty stage chain'')"
proof -
  have "stacks s [] = None"
  proof (cases "stacks s []")
    case None
    then show ?thesis .
  next
    case (Some r)
    then show ?thesis using assms(1) by (auto simp: memo_ok_def)
  qed
  then show ?thesis
    by (simp add: Pipeline_init_def assms(2) StageStack_get_def new_stack_def chain_of_key_def)
qed

text \<open>
  Claim C6 at the empty list object 1 of the example session.
\<close>

theorem empty_chain_fails_witness:
  "memo_ok ex_session \<and> list_objs ex_session 1 = [] \<and>
   Pipeline_init ex_session ''none'' 1 = Inl (YmpConfigError [] ''Empty stage chain'')"
proof -
  have l: "list_objs ex_session 1 = []" by (simp add: ex_session_def)
  show ?thesis using empty_chain_fails[OF ex_memo_ok l, of "''none''"] ex_memo_ok l by blast
qed

lemma project_Nil: "list_objs s (stages p) = [] \<Longrightarrow> project s p = Some (Inl IndexError)"
  by (subst project.simps) simp

lemma project_project:
  "list_objs s (stages p) = n # ns \<Longrightarrow> projects s n = Some pr \<Longrightarrow> project s p = Some (Inr pr)"
  by (subst project.simps) simp

lemma project_pipeline:
  "list_objs s (stages p) = n # ns \<Longrightarrow> projects s n = None \<Longrightarrow> pipelines s n = Some q \<Longrightarrow>
   project s p = project s q"
  by (subst project.simps) simp

lemma project_neither:
  "list_objs s (stages p) = n # ns \<Longrightarrow> projects s n = None \<Longrightarrow> pipelines s n = None \<Longrightarrow>
   project s p = Some (Inl (YmpConfigError (n # ns) ''Pipeline must start with project''))"
  by (subst project.simps) simp

lemma delegate_Some:
  "delegate s p = Some q \<Longrightarrow>
   \<exists>n ns. list_objs s (stages p) = n # ns \<and> projects s n = None \<and> pipelines s n = Some q"
  by (auto simp: delegate_def split: list.splits option.splits)

lemma project_delegate: "delegate s p = Some q \<Longrightarrow> project s p = project s q"
  using delegate_Some project_pipeline by blast

lemma project_delegates: "delegates s k p = Some q \<Longrightarrow> project s p = project s q"
proof (induction k arbitrary: p)
  case 0
  then show ?case by simp
next
  case (Suc k)
  then obtain p' where d: "delegate s p = Some p'" and ds: "delegates s k p' = Some q"
    by (auto split: option.splits)
  show ?case using project_delegate[OF d] Suc.IH[OF ds] by simp
qed

lemma delegates_snoc:
  "delegates s (Suc k) p =
     (case delegates s k p of None \<Rightarrow> None | Some q \<Rightarrow> delegate s q)"
proof (induction k arbitrary: p)
  case 0
  then show ?case by (simp split: option.splits)
next
  case (Suc k)
  show ?case
  proof (cases "delegate s p")
    case None
    then show ?thesis by simp
  next
    case (Some q)
    have "delegates s (Suc (Suc k)) p = delegates s (Suc k) q"
      using Some by simp
    also have "\<dots> = (case delegates s k q of None \<Rightarrow> None | Some x \<Rightarrow> delegate s x)"
      by (rule Suc.IH)
    also have "\<dots> = (case delegates s (Suc k) p of None \<Rightarrow> None | Some x \<Rightarrow> delegate s x)"
      using Some by simp
    finally show ?thesis .
  qed
qed

lemma project_Some_not_cyclic:
  assumes "project s p = Some y"
  shows "\<not> (\<exists>k. delegates s (Suc k) p = Some p)"
proof (rule project.raw_induct
    [where P = "\<lambda>s p y. \<not> (\<exists>k. delegates s (Suc k) p = Some p)" and s = s and p = p and y = y],
    goal_cases)
  case (1 f s p y)
  show ?case
  proof
    assume "\<exists>k. delegates s (Suc k) p = Some p"
    then obtain k where k: "delegates s (Suc k) p = Some p" ..
    then obtain q where d: "delegate s p = Some q" and ds: "delegates s k q = Some p"
      by (auto split: option.splits)
    from delegate_Some[OF d] obtain n ns where
      "list_objs s (stages p) = n # ns" "projects s n = None" "pipelines s n = Some q"
      by blast
    then have "f s q = Some y" using 1(2) by simp
    then have "\<not> (\<exists>k. delegates s (Suc k) q = Some q)" by (rule 1(1))
    moreover have "delegates s (Suc k) q = Some q"
      using ds d by (subst delegates_snoc) simp
    ultimately show False by blast
  qed
next
  case 2
  show ?case by (rule assms)
qed

lemma project_cycle_diverges:
  "0 < k \<Longrightarrow> delegates s k p = Some p \<Longrightarrow> project s p = None"
proof (cases k)
  case 0
  assume "0 < k" then show ?thesis using 0 by simp
next
  case (Suc k')
  assume "delegates s k p = Some p"
  then have "\<exists>k. delegates s (Suc k) p = Some p" using Suc by blast
  then show ?thesis using project_Some_not_cyclic[of s p] by (cases "project s p") auto
qed

lemma ex_loop_delegate: "delegates ex_config 1 ex_loop = Some ex_loop"
  by (simp add: delegate_def ex_config_def ex_session'_def ex_session_def ex_loop_def)

lemma Pipeline_init_registries:
  assumes "Pipeline_init s nm cfg = Inr (p, s')"
  shows "projects s' = projects s" "pipelines s' = pipelines s"
proof -
  from assms obtain stk s1 where
    g: "StageStack_get s (dot_join (list_objs s cfg)) = Inr (stk, s1)"
    and s': "s' = s1\<lparr>list_objs := fst (merge_loop (find_stage s1 (stack_objs s1 stk)) (next_list s1)
            ((list_objs s1)(next_list s1 := list_objs s1 cfg)) []),
          next_list := Suc (next_list s1)\<rparr>"
    by (rule Pipeline_init_Inr)
  show "projects s' = projects s" "pipelines s' = pipelines s"
    using StageStack_get_frame(4,5)[OF g] by (simp_all add: s')
qed

lemma Pipeline_init_Inl:
  "Pipeline_init s nm cfg = Inl e \<longleftrightarrow> StageStack_get s (dot_join (list_objs s cfg)) = Inl e"
  by (auto simp: Pipeline_init_def Let_def split: sum.splits)

lemma ex_init_nop: "Pipeline_init ex_session ''nop'' 2 = Inr (ex_nop, ex_session_nop)"
  by (simp add: Pipeline_init_def ex_session_def ex_session_nop_def ex_nop_def ex_stages_def
      StageStack_get_def new_stack_def chain_of_key_def known_name_def merge_loop.simps)

text \<open>
  Claim C3, as amended. When the delegation of \<^verbatim>\<open>project\<close> leads from a pipeline back
  to itself after one or more steps (it names itself or an ancestor as its root), the
  call does not return: it yields neither a project nor a configuration error. The
  source has no cycle detection; the interpreter ends such a recursion with its own
  \<^verbatim>\<open>RecursionError\<close>.
\<close>

theorem project_cycle_never_returns:
  assumes "0 < k" and "delegates s k p = Some p"
  shows "project s p = None"
  using assms by (rule project_cycle_diverges)

text \<open>
  Claim C3 as amended, at the pipeline \<^verbatim>\<open>loop\<close> that names itself as its root.
\<close>

theorem project_cycle_never_returns_witness:
  "(0::nat) < 1 \<and> delegates ex_config 1 ex_loop = Some ex_loop \<and>
   project ex_config ex_loop = None"
proof -
  have pos: "(0::nat) < 1" by simp
  have "project ex_config ex_loop = None"
    using pos ex_loop_delegate by (rule project_cycle_never_returns)
  then show ?thesis
    using ex_loop_delegate by simp
qed

text \<open>
  Claim C3 as stated fails: for the pipeline \<^verbatim>\<open>loop\<close>, whose first stage name is
  \<^verbatim>\<open>loop\<close>, reading \<^verbatim>\<open>project\<close> raises no configuration error; it does not return.
\<close>

theorem project_cycle_counterexample:
  "pipelines ex_config ''loop'' = Some ex_loop \<and>
   list_objs ex_config (stages ex_loop) = [''loop'', ''import''] \<and>
   projects ex_config ''loop'' = None \<and>
   project ex_config ex_loop \<noteq>
     Some (Inl (YmpConfigError [''loop'', ''import''] ''Pipeline must start with project'')) \<and>
   project ex_config ex_loop = None"
proof -
  have h: "pipelines ex_config ''loop'' = Some ex_loop"
    "list_objs ex_config (stages ex_loop) = [''loop'', ''import'']"
    "projects ex_config ''loop'' = None"
    by (simp_all add: ex_config_def ex_session'_def ex_session_def ex_loop_def)
  have "(0::nat) < 1" by simp
  then have "project ex_config ex_loop = None"
    using ex_loop_delegate by (rule project_cycle_diverges)
  then show ?thesis using h by simp
qed

text \<open>
  Claim C4 (project resolution is transitive and terminates). If the first stage name is
  a registered project, \<^verbatim>\<open>project\<close> returns it. Otherwise, if it names a registered
  pipeline, \<^verbatim>\<open>project\<close> equals the project of that pipeline. Hence a pipeline rooted
  in a pipeline rooted in a project returns that project, and so does any pipeline
  whose delegation reaches, after any number of steps, a pipeline rooted in a project.
  The registry of projects is consulted first, as in the source.
\<close>

theorem project_resolution_transitive:
  "(list_objs s (stages p) = n # ns \<and> projects s n = Some pr \<longrightarrow>
      project s p = Some (Inr pr)) \<and>
   (list_objs s (stages p) = n # ns \<and> projects s n = None \<and> pipelines s n = Some q \<longrightarrow>
      project s p = project s q) \<and>
   (list_objs s (stages p2) = n1 # ns2 \<and> projects s n1 = None \<and> pipelines s n1 = Some p1 \<and>
    list_objs s (stages p1) = n0 # ns1 \<and> projects s n0 = Some pr' \<longrightarrow>
      project s p2 = Some (Inr pr')) \<and>
   (delegates s k p3 = Some q3 \<and> list_objs s (stages q3) = m # ms \<and> projects s m = Some pr'' \<longrightarrow>
      project s p3 = Some (Inr pr''))"
proof (intro conjI impI)
  assume "list_objs s (stages p) = n # ns \<and> projects s n = Some pr"
  then show "project s p = Some (Inr pr)" using project_project by blast
next
  assume "list_objs s (stages p) = n # ns \<and> projects s n = None \<and> pipelines s n = Some q"
  then show "project s p = project s q" using project_pipeline by blast
next
  assume a: "list_objs s (stages p2) = n1 # ns2 \<and> projects s n1 = None \<and> pipelines s n1 = Some p1 \<and>
    list_objs s (stages p1) = n0 # ns1 \<and> projects s n0 = Some pr'"
  then have "project s p2 = project s p1" using project_pipeline by blast
  moreover have "project s p1 = Some (Inr pr')" using a project_project by blast
  ultimately show "project s p2 = Some (Inr pr')" by simp
next
  assume a: "delegates s k p3 = Some q3 \<and> list_objs s (stages q3) = m # ms \<and> projects s m = Some pr''"
  then have "project s p3 = project s q3" using project_delegates by blast
  moreover have "project s q3 = Some (Inr pr'')" using a project_project by blast
  ultimately show "project s p3 = Some (Inr pr'')" by simp
qed

text \<open>
  Claim C4 at the example configuration: \<^verbatim>\<open>full\<close> is rooted in \<^verbatim>\<open>qc\<close>, which is
  rooted in the project \<^verbatim>\<open>proj1\<close>.
\<close>

theorem project_resolution_transitive_witness:
  "list_objs ex_config (stages ex_full) = [''qc'', ''trim_bbmap''] \<and>
   projects ex_config ''qc'' = None \<and> pipelines ex_config ''qc'' = Some ex_pipeline \<and>
   list_objs ex_config (stages ex_pipeline) = [''proj1'', ''import'', ''trim_bbmap''] \<and>
   projects ex_config ''proj1'' = Some (Project ''proj1'') \<and>
   delegates ex_config 1 ex_full = Some ex_pipeline \<and>
   project ex_config ex_pipeline = Some (Inr (Project ''proj1'')) \<and>
   project ex_config ex_full = project ex_config ex_pipeline \<and>
   project ex_config ex_full = Some (Inr (Project ''proj1''))"
proof -
  have h: "list_objs ex_config (stages ex_full) = [''qc'', ''trim_bbmap'']"
    "projects ex_config ''qc'' = None" "pipelines ex_config ''qc'' = Some ex_pipeline"
    "list_objs ex_config (stages ex_pipeline) = [''proj1'', ''import'', ''trim_bbmap'']"
    "projects ex_config ''proj1'' = Some (Project ''proj1'')"
    by (simp_all add: ex_config_def ex_session'_def ex_session_def ex_full_def ex_pipeline_def)
  have d: "delegates ex_config 1 ex_full = Some ex_pipeline"
    by (simp add: delegate_def h)
  note th = project_resolution_transitive
    [of ex_config ex_pipeline "''proj1''" "[''import'', ''trim_bbmap'']" "Project ''proj1''"
        ex_pipeline ex_full "''qc''" "[''trim_bbmap'']" ex_pipeline
        "''proj1''" "[''import'', ''trim_bbmap'']" "Project ''proj1''"
        1 ex_full ex_pipeline "''proj1''" "[''import'', ''trim_bbmap'']" "Project ''proj1''"]
  have a: "project ex_config ex_pipeline = Some (Inr (Project ''proj1''))"
    using th h by blast
  have b: "project ex_config ex_full = project ex_config ex_pipeline"
    using project_resolution_transitive
      [of ex_config ex_full "''qc''" "[''trim_bbmap'']" _ ex_pipeline] h
    by blast
  have c: "project ex_config ex_full = Some (Inr (Project ''proj1''))"
    using th h d by blast
  show ?thesis using h d a b c by blast
qed

lemma split_dot_acc_plain:
  "CHR ''.'' \<notin> set x \<Longrightarrow> split_dot_acc acc x = [rev acc @ x]"
  by (induction x arbitrary: acc) auto

lemma split_dot_acc_dot:
  "CHR ''.'' \<notin> set x \<Longrightarrow>
   split_dot_acc acc (x @ CHR ''.'' # rest) = (rev acc @ x) # split_dot_acc [] rest"
  by (induction x arbitrary: acc) auto

lemma split_dot_join:
  "names \<noteq> [] \<Longrightarrow> \<forall>n\<in>set names. CHR ''.'' \<notin> set n \<Longrightarrow>
   split_dot_acc [] (dot_join names) = names"
proof (induction names rule: dot_join.induct)
  case 1
  then show ?case by simp
next
  case (2 x)
  then show ?case by (simp add: split_dot_acc_plain)
next
  case (3 x y ys)
  have "split_dot_acc [] (x @ CHR ''.'' # dot_join (y # ys)) =
        x # split_dot_acc [] (dot_join (y # ys))"
    using 3(3) by (simp add: split_dot_acc_dot)
  then show ?case using 3 by simp
qed

lemma dot_join_Cons_nonempty: "n \<noteq> [] \<Longrightarrow> dot_join (n # ns) \<noteq> []"
  by (cases ns) auto

lemma chain_of_key_dot_join:
  assumes "list_all plain_name (n # ns)"
  shows "chain_of_key (dot_join (n # ns)) = n # ns"
proof -
  have "n \<noteq> []" and "\<forall>m\<in>set (n # ns). CHR ''.'' \<notin> set m"
    using assms by (auto simp: plain_name_def list_all_iff)
  then show ?thesis
    using split_dot_join[of "n # ns"] dot_join_Cons_nonempty[of n ns]
    by (simp add: chain_of_key_def)
qed

lemma StageStack_get_known:
  assumes "list_all plain_name (n # ns)" and "list_all (known_name s) (n # ns)"
  shows "\<exists>r s1. StageStack_get s (dot_join (n # ns)) = Inr (r, s1)"
proof (cases "stacks s (dot_join (n # ns))")
  case (Some r)
  then show ?thesis by (simp add: StageStack_get_def)
next
  case None
  have "new_stack s (dot_join (n # ns)) =
        Inr \<lparr>stack_name = dot_join (n # ns), stage_names = n # ns\<rparr>"
    using assms(2) by (simp add: new_stack_def Let_def chain_of_key_dot_join[OF assms(1)])
  then show ?thesis using None by (simp add: StageStack_get_def)
qed

lemma StageStack_get_unknown:
  assumes "memo_valid s" and "list_all plain_name (n # ns)" and "\<not> known_name s n"
  shows "StageStack_get s (dot_join (n # ns)) = Inl (YmpConfigError (n # ns) ''Unknown stage name'')"
proof -
  note ck = chain_of_key_dot_join[OF assms(2)]
  have none: "stacks s (dot_join (n # ns)) = None"
  proof (cases "stacks s (dot_join (n # ns))")
    case None
    then show ?thesis .
  next
    case (Some r)
    then have "list_all (known_name s) (chain_of_key (dot_join (n # ns)))"
      using assms(1) by (simp add: memo_valid_def)
    then show ?thesis using assms(3) by (simp add: ck)
  qed
  have "new_stack s (dot_join (n # ns)) = Inl (YmpConfigError (n # ns) ''Unknown stage name'')"
    using assms(3) by (simp add: new_stack_def Let_def ck)
  then show ?thesis using none by (simp add: StageStack_get_def)
qed

lemma StageStack_get_known_name:
  assumes "StageStack_get s k = Inr (r, s1)"
  shows "known_name s1 = known_name s"
  using StageStack_get_frame(4,5,6)[OF assms] by (simp add: known_name_def fun_eq_iff)

lemma new_stack_Inr_valid:
  "new_stack s k = Inr stk \<Longrightarrow>
   chain_of_key k \<noteq> [] \<and> list_all (known_name s) (chain_of_key k)"
  by (auto simp: new_stack_def Let_def split: if_splits)

lemma StageStack_get_memo_valid:
  assumes "memo_valid s" and "StageStack_get s k = Inr (r, s1)"
  shows "memo_valid s1"
proof (cases "stacks s k")
  case (Some r')
  then show ?thesis using assms by (simp add: StageStack_get_def)
next
  case None
  then obtain stk where stk: "new_stack s k = Inr stk"
    and st: "stacks s1 = (stacks s)(k \<mapsto> next_stack s)"
    using assms(2) by (auto simp: StageStack_get_def split: sum.splits)
  note kn = StageStack_get_known_name[OF assms(2)]
  note v = new_stack_Inr_valid[OF stk]
  show ?thesis
    unfolding memo_valid_def kn st
    using assms(1) v by (auto simp: memo_valid_def)
qed

lemma Pipeline_init_memo_valid:
  assumes "memo_valid s" and "Pipeline_init s nm cfg = Inr (p, s')"
  shows "memo_valid s'"
proof -
  from assms(2) obtain stk s1 where
    g: "StageStack_get s (dot_join (list_objs s cfg)) = Inr (stk, s1)"
    and s': "s' = s1\<lparr>list_objs := fst (merge_loop (find_stage s1 (stack_objs s1 stk)) (next_list s1)
            ((list_objs s1)(next_list s1 := list_objs s1 cfg)) []),
          next_list := Suc (next_list s1)\<rparr>"
    by (rule Pipeline_init_Inr)
  have v: "memo_valid s1" using assms(1) g by (rule StageStack_get_memo_valid)
  have kn: "known_name s' = known_name s1"
    by (simp add: known_name_def fun_eq_iff s')
  have st: "stacks s' = stacks s1"
    by (simp add: s')
  show ?thesis using v unfolding memo_valid_def kn st .
qed

lemma Pipeline_init_project_neither:
  assumes "Pipeline_init s nm cfg = Inr (p, s')" and "cfg < next_list s"
    and "list_objs s cfg = n # ns" and "projects s n = None" and "pipelines s n = None"
  shows "project s' p = Some (Inl (YmpConfigError (n # ns) ''Pipeline must start with project''))"
proof -
  note st = Pipeline_init_store[OF assms(1)] and rg = Pipeline_init_registries[OF assms(1)]
  have "list_objs s' (stages p) = n # ns"
    using assms(2,3) by (simp add: st(1) st(3))
  moreover have "projects s' n = None" "pipelines s' n = None"
    using assms(4,5) by (simp_all add: rg)
  ultimately show ?thesis by (rule project_neither)
qed

text \<open>
  Claim C2, as amended. The constructor raises exactly the errors that the request for
  the stack of the chain raises. For a chain of names that are not empty and hold no
  separator: if no registry knows the first name, construction fails with a
  configuration error (no invalid key being memoized); if every name is known and the
  first is neither a project nor a pipeline (so it is a stage), construction returns a
  pipeline, and reading its \<^verbatim>\<open>project\<close> property raises \<^verbatim>\<open>YmpConfigError\<close> with the
  chain and the message \<^verbatim>\<open>Pipeline must start with project\<close>. The same error is
  raised on reading \<^verbatim>\<open>project\<close> of any constructed pipeline whose first name is
  neither a project nor a pipeline.
\<close>

theorem construction_errors_and_deferred_project_error:
  "(Pipeline_init s nm cfg = Inl e \<longleftrightarrow>
      StageStack_get s (dot_join (list_objs s cfg)) = Inl e) \<and>
   (memo_valid s \<and> list_objs s cfg = n # ns \<and> list_all plain_name (n # ns) \<and>
    \<not> known_name s n \<longrightarrow>
      Pipeline_init s nm cfg = Inl (YmpConfigError (n # ns) ''Unknown stage name'')) \<and>
   (cfg < next_list s \<and> list_objs s cfg = n # ns \<and> list_all plain_name (n # ns) \<and>
    list_all (known_name s) (n # ns) \<and> projects s n = None \<and> pipelines s n = None \<longrightarrow>
      (\<exists>p s'. Pipeline_init s nm cfg = Inr (p, s') \<and>
         project s' p =
           Some (Inl (YmpConfigError (n # ns) ''Pipeline must start with project'')))) \<and>
   (Pipeline_init s nm cfg = Inr (q, t) \<and> cfg < next_list s \<and>
    list_objs s cfg = n # ns \<and> projects s n = None \<and> pipelines s n = None \<longrightarrow>
      project t q =
        Some (Inl (YmpConfigError (n # ns) ''Pipeline must start with project'')))"
proof (intro conjI impI)
  show "Pipeline_init s nm cfg = Inl e \<longleftrightarrow>
      StageStack_get s (dot_join (list_objs s cfg)) = Inl e"
    by (rule Pipeline_init_Inl)
next
  assume a: "memo_valid s \<and> list_objs s cfg = n # ns \<and> list_all plain_name (n # ns) \<and>
    \<not> known_name s n"
  then have "StageStack_get s (dot_join (list_objs s cfg)) =
             Inl (YmpConfigError (n # ns) ''Unknown stage name'')"
    using StageStack_get_unknown[of s n ns] by simp
  then show "Pipeline_init s nm cfg = Inl (YmpConfigError (n # ns) ''Unknown stage name'')"
    by (simp add: Pipeline_init_Inl)
next
  assume a: "cfg < next_list s \<and> list_objs s cfg = n # ns \<and> list_all plain_name (n # ns) \<and>
    list_all (known_name s) (n # ns) \<and> projects s n = None \<and> pipelines s n = None"
  then obtain r s1 where "StageStack_get s (dot_join (list_objs s cfg)) = Inr (r, s1)"
    using StageStack_get_known[of n ns s] by auto
  then obtain p s' where init: "Pipeline_init s nm cfg = Inr (p, s')"
    by (simp add: Pipeline_init_def Let_def)
  have "project s' p =
          Some (Inl (YmpConfigError (n # ns) ''Pipeline must start with project''))"
    using init a by (intro Pipeline_init_project_neither) auto
  then show "\<exists>p s'. Pipeline_init s nm cfg = Inr (p, s') \<and>
         project s' p =
           Some (Inl (YmpConfigError (n # ns) ''Pipeline must start with project''))"
    using init by blast
next
  assume a: "Pipeline_init s nm cfg = Inr (q, t) \<and> cfg < next_list s \<and>
    list_objs s cfg = n # ns \<and> projects s n = None \<and> pipelines s n = None"
  then show "project t q =
        Some (Inl (YmpConfigError (n # ns) ''Pipeline must start with project''))"
    by (intro Pipeline_init_project_neither) auto
qed

text \<open>
  Claim C2 as amended, at the example sessions: the empty list object 1 fails at
  construction; the chain \<^verbatim>\<open>["nosuch", "import"]\<close> fails at construction; list object 2
  starts with the stage \<^verbatim>\<open>import\<close>, is constructed, and fails when the project is
  read.
\<close>

theorem construction_errors_and_deferred_project_error_witness:
  "Pipeline_init ex_session ''none'' 1 = Inl (YmpConfigError [] ''Empty stage chain'') \<and>
   memo_valid ex_session_unknown \<and>
   list_objs ex_session_unknown 1 = [''nosuch'', ''import''] \<and>
   list_all plain_name [''nosuch'', ''import''] \<and>
   \<not> known_name ex_session_unknown ''nosuch'' \<and>
   Pipeline_init ex_session_unknown ''bad'' 1 =
     Inl (YmpConfigError [''nosuch'', ''import''] ''Unknown stage name'') \<and>
   2 < next_list ex_session \<and>
   list_objs ex_session 2 = [''import'', ''trim_bbmap''] \<and>
   list_all plain_name [''import'', ''trim_bbmap''] \<and>
   list_all (known_name ex_session) [''import'', ''trim_bbmap''] \<and>
   projects ex_session ''import'' = None \<and> pipelines ex_session ''import'' = None \<and>
   Pipeline_init ex_session ''nop'' 2 = Inr (ex_nop, ex_session_nop) \<and>
   project ex_session_nop ex_nop =
     Some (Inl (YmpConfigError [''import'', ''trim_bbmap''] ''Pipeline must start with project''))"
proof -
  have g: "StageStack_get ex_session (dot_join (list_objs ex_session 1)) =
           Inl (YmpConfigError [] ''Empty stage chain'')"
    by (simp add: ex_session_def StageStack_get_def new_stack_def chain_of_key_def)
  have a: "Pipeline_init ex_session ''none'' 1 = Inl (YmpConfigError [] ''Empty stage chain'')"
    using construction_errors_and_deferred_project_error
      [of ex_session "''none''" 1 "YmpConfigError [] ''Empty stage chain''"] g
    by blast
  have u: "memo_valid ex_session_unknown"
    "list_objs ex_session_unknown 1 = [''nosuch'', ''import'']"
    "list_all plain_name [''nosuch'', ''import'']"
    "\<not> known_name ex_session_unknown ''nosuch''"
    by (simp_all add: memo_valid_def ex_session_unknown_def ex_session_def ex_stages_def
        plain_name_def known_name_def)
  have b: "Pipeline_init ex_session_unknown ''bad'' 1 =
     Inl (YmpConfigError [''nosuch'', ''import''] ''Unknown stage name'')"
    using construction_errors_and_deferred_project_error
      [of ex_session_unknown "''bad''" 1 _ "''nosuch''" "[''import'']"] u
    by blast
  have h: "2 < next_list ex_session" "list_objs ex_session 2 = [''import'', ''trim_bbmap'']"
    "list_all plain_name [''import'', ''trim_bbmap'']"
    "list_all (known_name ex_session) [''import'', ''trim_bbmap'']"
    "projects ex_session ''import'' = None" "pipelines ex_session ''import'' = None"
    by (simp_all add: ex_session_def ex_stages_def plain_name_def known_name_def)
  from construction_errors_and_deferred_project_error
      [of ex_session "''nop''" 2 _ "''import''" "[''trim_bbmap'']"] h
  obtain p s' where i: "Pipeline_init ex_session ''nop'' 2 = Inr (p, s')"
    and pr: "project s' p =
      Some (Inl (YmpConfigError [''import'', ''trim_bbmap''] ''Pipeline must start with project''))"
    by blast
  have eq: "p = ex_nop" "s' = ex_session_nop"
    using i ex_init_nop by simp_all
  have c: "project ex_session_nop ex_nop =
     Some (Inl (YmpConfigError [''import'', ''trim_bbmap''] ''Pipeline must start with project''))"
    using pr unfolding eq .
  have c': "project ex_session_nop ex_nop =
     Some (Inl (YmpConfigError [''import'', ''trim_bbmap''] ''Pipeline must start with project''))"
    using construction_errors_and_deferred_project_error
      [of ex_session "''nop''" 2 _ "''import''" "[''trim_bbmap'']" ex_nop ex_session_nop]
      ex_init_nop h
    by blast
  show ?thesis using a u b h ex_init_nop c c' by blast
qed

text \<open>
  Claim C2 as stated fails: the chain \<^verbatim>\<open>["import", "trim_bbmap"]\<close> starts with a name
  that is neither a project nor a pipeline, the constructor returns a pipeline, and the
  configuration error appears only when \<^verbatim>\<open>project\<close> is read.
\<close>

theorem deferred_project_error_counterexample:
  "Pipeline_init ex_session ''nop'' 2 = Inr (ex_nop, ex_session_nop) \<and>
   list_objs ex_session 2 = [''import'', ''trim_bbmap''] \<and>
   projects ex_session ''import'' = None \<and> pipelines ex_session ''import'' = None \<and>
   project ex_session_nop ex_nop =
     Some (Inl (YmpConfigError [''import'', ''trim_bbmap''] ''Pipeline must start with project''))"
proof -
  have h: "list_objs ex_session 2 = [''import'', ''trim_bbmap'']"
    "projects ex_session ''import'' = None" "pipelines ex_session ''import'' = None"
    by (simp_all add: ex_session_def)
  have l: "list_objs ex_session_nop (stages ex_nop) = [''import'', ''trim_bbmap'']"
    "projects ex_session_nop ''import'' = None" "pipelines ex_session_nop ''import'' = None"
    by (simp_all add: ex_session_nop_def ex_session_def ex_nop_def)
  show ?thesis using ex_init_nop h project_neither[OF l] by blast
qed

end
